theory Spec2Isabelle
  imports Main "HOL-Library.Word" "HOL-Library.AList"
begin

section \<open>The record model of \<open>main.go\<close>\<close>

text \<open>
  The exporter decodes one JSON document per refresh cycle into a \<open>response\<close>, whose
  \<open>Obs\<close> array holds \<open>observation\<close> structs. \<open>mapIndoor\<close> reaches the fields of an
  observation only through package \<open>reflect\<close>: by position (\<open>NumField\<close>, \<open>Field(i).Name\<close>)
  and by name (\<open>FieldByName\<close>). An observation is therefore modelled the way \<open>reflect\<close>
  presents it: its fields in declaration order, each a pair of the Go field name and the
  value it holds.

  A \<open>float64\<close> is its 64-bit IEEE-754 pattern; no arithmetic is ever done on one, values
  are only tested for being the zero value and copied.
\<close>

type_synonym float64 = "64 word"

datatype kind = KFloat64 | KString

datatype rvalue = F64 float64 | Str string

fun Kind :: "rvalue \<Rightarrow> kind" where
  "Kind (F64 x) = KFloat64"
| "Kind (Str s) = KString"

type_synonym observation = "(string \<times> rvalue) list"

text \<open>The declaration of \<open>type observation struct\<close>: field names and types, in order.\<close>

definition observation_fields :: "(string \<times> kind) list" where
  "observation_fields =
   [(''AirDensity'', KFloat64),
    (''AirDensityIndoor'', KFloat64),
    (''AirTemperature'', KFloat64),
    (''AirTemperatureIndoor'', KFloat64),
    (''BarometricPressure'', KFloat64),
    (''BarometricPressureIndoor'', KFloat64),
    (''Brightness'', KFloat64),
    (''DeltaT'', KFloat64),
    (''DeltaTIndoor'', KFloat64),
    (''DewPoint'', KFloat64),
    (''DewPointIndoor'', KFloat64),
    (''FeelsLike'', KFloat64),
    (''FeelsLikeIndoor'', KFloat64),
    (''HeatIndex'', KFloat64),
    (''HeatIndexIndoor'', KFloat64),
    (''LightningStrikeCount'', KFloat64),
    (''LightningStrikeCountIndoor'', KFloat64),
    (''LightningStrikeCountLast1hr'', KFloat64),
    (''LightningStrikeCountLast1hrIndoor'', KFloat64),
    (''LightningStrikeCountLast3hr'', KFloat64),
    (''LightningStrikeCountLast3hrIndoor'', KFloat64),
    (''LightningStrikeLastDistance'', KFloat64),
    (''LightningStrikeLastDistanceIndoor'', KFloat64),
    (''LightningStrikeLastEpoch'', KFloat64),
    (''LightningStrikeLastEpochIndoor'', KFloat64),
    (''Precip'', KFloat64),
    (''PrecipAccumLast1hr'', KFloat64),
    (''PrecipAccumLocalDay'', KFloat64),
    (''PrecipAccumLocalYesterday'', KFloat64),
    (''PrecipAccumLocalYesterdayFinal'', KFloat64),
    (''PrecipAnalysisTypeYesterday'', KFloat64),
    (''PrecipMinutesLocalDay'', KFloat64),
    (''PrecipMinutesLocalYesterday'', KFloat64),
    (''PrecipMinutesLocalYesterdayFinal'', KFloat64),
    (''PressureTrend'', KString),
    (''PressureTrendIndoor'', KString),
    (''RelativeHumidity'', KFloat64),
    (''RelativeHumidityIndoor'', KFloat64),
    (''SeaLevelPressure'', KFloat64),
    (''SeaLevelPressureIndoor'', KFloat64),
    (''SolarRadiation'', KFloat64),
    (''StationPressure'', KFloat64),
    (''StationPressureIndoor'', KFloat64),
    (''Timestamp'', KFloat64),
    (''Uv'', KFloat64),
    (''WetBulbTemperature'', KFloat64),
    (''WetBulbTemperatureIndoor'', KFloat64),
    (''WindAvg'', KFloat64),
    (''WindChill'', KFloat64),
    (''WindChillIndoor'', KFloat64),
    (''WindDirection'', KFloat64),
    (''WindGust'', KFloat64),
    (''WindLull'', KFloat64)]"

text \<open>A value of type \<open>observation\<close>: the declared fields, each holding a value of its type.\<close>

definition is_observation :: "observation \<Rightarrow> bool" where
  "is_observation obs = (map (\<lambda>(n, v). (n, Kind v)) obs = observation_fields)"

subsection \<open>The part of package \<open>reflect\<close> that \<open>mapIndoor\<close> calls\<close>

text \<open>
  \<open>FieldByName\<close> returns the zero \<open>Value\<close> when the struct has no such field, which
  \<open>IsValid\<close> then reports; here that is \<open>None\<close>.
\<close>

definition FieldByName :: "string \<Rightarrow> observation \<Rightarrow> rvalue option" where
  "FieldByName name obs = map_of obs name"

text \<open>
  \<open>IsZero\<close> reports whether a value is the zero value of its type. For a string that is
  the empty string. For a \<open>float64\<close> the library's test is taken as the parameter \<open>fz\<close>:
  up to Go 1.21 it compares the bit pattern with 0 (\<open>fz_bits\<close>), since Go 1.22 it
  compares the number with 0, so that negative zero counts as zero too (\<open>fz_number\<close>).
  Nothing proved below depends on which of the two is in force.
\<close>

fun IsZero :: "(float64 \<Rightarrow> bool) \<Rightarrow> rvalue \<Rightarrow> bool" where
  "IsZero fz (F64 x) = fz x"
| "IsZero fz (Str s) = (s = [])"

definition fz_bits :: "float64 \<Rightarrow> bool" where
  "fz_bits x = (x = 0)"

definition fz_number :: "float64 \<Rightarrow> bool" where
  "fz_number x = (x = 0 \<or> x = 0x8000000000000000)"

text \<open>
  \<open>Set\<close> on the field found by name. It panics on the zero \<open>Value\<close> and when the new
  value is not assignable to the field's type.
\<close>

datatype panic = SetOnZeroValue | NotAssignable kind kind

definition FieldSet :: "string \<Rightarrow> rvalue \<Rightarrow> observation \<Rightarrow> panic + observation" where
  "FieldSet name x obs =
     (case FieldByName name obs of
        None \<Rightarrow> Inl SetOnZeroValue
      | Some old \<Rightarrow>
          if Kind x = Kind old then Inr (AList.update name x obs)
          else Inl (NotAssignable (Kind x) (Kind old)))"

section \<open>The overlay resolver\<close>

text \<open>
  The loop of \<open>mapIndoor\<close> runs over the field names of the struct type, in order. For
  each it looks up the field called that name followed by \<open>Indoor\<close> in the current
  state of the struct, and when that field exists and is not zero, stores its value in the
  field at hand. The struct is mutated in place; the model returns it.
\<close>

fun mapIndoor_loop :: "(float64 \<Rightarrow> bool) \<Rightarrow> string list \<Rightarrow> observation \<Rightarrow> panic + observation" where
  "mapIndoor_loop fz [] obs = Inr obs"
| "mapIndoor_loop fz (fieldName # rest) obs =
     (let indoorName = fieldName @ ''Indoor'' in
      case FieldByName indoorName obs of
        None \<Rightarrow> mapIndoor_loop fz rest obs
      | Some indoorValue \<Rightarrow>
          if \<not> IsZero fz indoorValue
          then (case FieldSet fieldName indoorValue obs of
                  Inl p \<Rightarrow> Inl p
                | Inr obs' \<Rightarrow> mapIndoor_loop fz rest obs')
          else mapIndoor_loop fz rest obs)"

definition mapIndoor :: "(float64 \<Rightarrow> bool) \<Rightarrow> observation \<Rightarrow> panic + observation" where
  "mapIndoor fz obs = mapIndoor_loop fz (map fst obs) obs"

text \<open>
  What the loop computes, field by field, written against the struct as it was on entry:
  a field that is present keeps its value unless a field of its name followed by
  \<open>Indoor\<close> is present and not zero, whose value it then takes.
\<close>

definition resolved_field :: "(float64 \<Rightarrow> bool) \<Rightarrow> observation \<Rightarrow> string \<Rightarrow> rvalue option" where
  "resolved_field fz obs n =
     (case FieldByName n obs of
        None \<Rightarrow> None
      | Some v \<Rightarrow>
          (case FieldByName (n @ ''Indoor'') obs of
             None \<Rightarrow> Some v
           | Some w \<Rightarrow> if IsZero fz w then Some v else Some w))"

text \<open>Field names that carry a given suffix, and observations whose indoor fields are all zero.\<close>

definition ends_with :: "string \<Rightarrow> string \<Rightarrow> bool" where
  "ends_with s suf = (length suf \<le> length s \<and> drop (length s - length suf) s = suf)"

definition indoor_fields_zero :: "(float64 \<Rightarrow> bool) \<Rightarrow> observation \<Rightarrow> bool" where
  "indoor_fields_zero fz obs = list_all (\<lambda>(n, w). \<not> ends_with n ''Indoor'' \<or> IsZero fz w) obs"

section \<open>The station envelope and its labels\<close>

record stationStatus =
  Code :: int

record response =
  StationId :: int
  StationName :: string
  PublicName :: string
  Latitude :: float64
  Longitude :: float64
  Timezone :: string
  Elevation :: float64
  Status :: stationStatus
  Obs :: "observation list"

text \<open>\<open>prometheus.Labels\<close> is \<open>map[string]string\<close>.\<close>

type_synonym Labels = "string \<rightharpoonup> string"

text \<open>
  \<open>strconv.Itoa\<close>: the base-10 digits of the integer, most significant first, after a
  minus sign when it is negative. \<open>StationId\<close> is a Go \<open>int\<close>; no arithmetic is done on
  it, so it is an \<open>int\<close> here.
\<close>

definition digit_char :: "nat \<Rightarrow> char" where
  "digit_char d = ''0123456789'' ! d"

fun digits10 :: "nat \<Rightarrow> string" where
  "digits10 n = (if n < 10 then [digit_char n] else digits10 (n div 10) @ [digit_char (n mod 10)])"

declare digits10.simps [simp del]

definition Itoa :: "int \<Rightarrow> string" where
  "Itoa i = (if i < 0 then CHR ''-'' # digits10 (nat (- i)) else digits10 (nat i))"

text \<open>Reading a decimal numeral back: the number a string of digits denotes.\<close>

definition digit_val :: "char \<Rightarrow> nat" where
  "digit_val c = of_char c - 48"

definition decimal_nat :: "string \<Rightarrow> nat" where
  "decimal_nat s = foldl (\<lambda>a c. 10 * a + digit_val c) 0 s"

fun decimal_int :: "string \<Rightarrow> int" where
  "decimal_int [] = 0"
| "decimal_int (c # cs) = (if c = CHR ''-'' then - int (decimal_nat cs) else int (decimal_nat (c # cs)))"

text \<open>
  \<open>parseLabels\<close> fills a fresh map by seven assignments. \<open>strconv.FormatFloat\<close> converts
  a binary floating-point number to decimal digits; it is the parameter \<open>FormatFloat\<close>,
  called with the arguments the source passes: the value, the format byte, the precision
  and the bit size.
\<close>

definition parseLabels :: "(float64 \<Rightarrow> char \<Rightarrow> int \<Rightarrow> int \<Rightarrow> string) \<Rightarrow> response \<Rightarrow> Labels" where
  "parseLabels FormatFloat r =
     (let l = Map.empty;
          l = l(''station_id'' \<mapsto> Itoa (StationId r));
          l = l(''station_name'' \<mapsto> StationName r);
          l = l(''public_name'' \<mapsto> PublicName r);
          l = l(''latitude'' \<mapsto> FormatFloat (Latitude r) CHR ''E'' (- 1) 64);
          l = l(''longitude'' \<mapsto> FormatFloat (Longitude r) CHR ''E'' (- 1) 64);
          l = l(''timezone'' \<mapsto> Timezone r);
          l = l(''elevation'' \<mapsto> FormatFloat (Elevation r) CHR ''E'' (- 1) 64)
      in l)"

section \<open>Fetching and the refresh loop\<close>

text \<open>
  \<open>http.Get\<close> either fails or yields a response whose body is then decoded. The network
  is a function from the request URL to that outcome; \<open>json.Decoder.Decode\<close> is the
  parameter \<open>Decode\<close>. On an error the Go function also returns the partly filled
  struct, which no caller reads; the model returns the error alone.
\<close>

datatype 'b http_reply = GetFailed string | Reply 'b

definition apiURL :: string where
  "apiURL = ''https://swd.weatherflow.com/swd/rest/observations/station''"

definition getTempestData ::
  "(string \<Rightarrow> 'b http_reply) \<Rightarrow> ('b \<Rightarrow> string + response) \<Rightarrow> string \<Rightarrow> string \<Rightarrow> string + response" where
  "getTempestData Get Decode t s =
     (let reqURL = apiURL @ ''/'' @ s @ ''?token='' @ t in
      case Get reqURL of
        GetFailed err \<Rightarrow> Inl (''error getting data from tempest station: '' @ err)
      | Reply body \<Rightarrow>
          (case Decode body of
             Inl err \<Rightarrow> Inl (''error parsing json into response struct: '' @ err)
           | Inr r \<Rightarrow> Inr r))"

text \<open>
  The package-level variables the loop reads and writes. The registry type \<open>MetricsMap\<close>
  and its method \<open>SetAll\<close> are declared outside \<open>main.go\<close>: the registry is any type
  \<open>'m\<close> and \<open>SetAll\<close> any function on it. The configuration read from the environment
  and the library routines are collected in one record.
\<close>

record 'm globals =
  labels :: Labels
  metrics :: 'm

record ('b, 'm) deps =
  token :: string
  station :: string
  Decode :: "'b \<Rightarrow> string + response"
  FormatFloat :: "float64 \<Rightarrow> char \<Rightarrow> int \<Rightarrow> int \<Rightarrow> string"
  FloatIsZero :: "float64 \<Rightarrow> bool"
  SetAll :: "observation \<Rightarrow> Labels \<Rightarrow> 'm \<Rightarrow> 'm"

text \<open>
  One pass through the body of the \<open>for\<close> loop of \<open>getDatas\<close>, up to the sleep.
  \<open>log.Fatal\<close> prints the error and exits the process; a panic of \<open>reflect\<close> would
  end it too. The lines written to the log and the length of the sleep are left out.
\<close>

datatype 'm outcome = Fatal string | Panic panic | Next "'m globals"

definition getDatas_body :: "('b, 'm) deps \<Rightarrow> (string \<Rightarrow> 'b http_reply) \<Rightarrow> 'm globals \<Rightarrow> 'm outcome" where
  "getDatas_body E Get g =
     (case getTempestData Get (Decode E) (token E) (station E) of
        Inl err \<Rightarrow> Fatal err
      | Inr r \<Rightarrow>
          (let g = g\<lparr>labels := parseLabels (FormatFloat E) r\<rparr> in
           if length (Obs r) > 0
           then (let ob = Obs r ! 0 in
                 case mapIndoor (FloatIsZero E) ob of
                   Inl p \<Rightarrow> Panic p
                 | Inr ob' \<Rightarrow> Next (g\<lparr>metrics := SetAll E ob' (labels g) (metrics g)\<rparr>))
           else Next g))"

text \<open>
  The loop has no exit of its own. Its run is followed over the successive answers of the
  network, one per pass: it ends in \<open>Exited\<close> or \<open>Panicked\<close> at the first pass that ends
  the process, and is \<open>Running\<close>, about to fetch again, when every answer given has been
  consumed.
\<close>

datatype 'm run = Exited string "'m globals" | Panicked panic "'m globals" | Running "'m globals"

fun getDatas :: "('b, 'm) deps \<Rightarrow> (string \<Rightarrow> 'b http_reply) list \<Rightarrow> 'm globals \<Rightarrow> 'm run" where
  "getDatas E [] g = Running g"
| "getDatas E (Get # later) g =
     (case getDatas_body E Get g of
        Fatal err \<Rightarrow> Exited err g
      | Panic p \<Rightarrow> Panicked p g
      | Next g' \<Rightarrow> getDatas E later g')"

section \<open>Sample data\<close>

text \<open>
  The zero value of the struct, and an observation with an indoor temperature
  (15.0 outdoors, 18.0 indoors), a humidity without indoor reading (80.0) and two
  pressure trends; a response of station 42 at latitude 45.0, longitude -122.0 and
  elevation 100.0. The constants are the IEEE-754 patterns of these numbers.
\<close>

definition zero_observation :: observation where
  "zero_observation =
     map (\<lambda>(n, k). (n, case k of KFloat64 \<Rightarrow> F64 0 | KString \<Rightarrow> Str [])) observation_fields"

definition outdoor_obs :: observation where
  "outdoor_obs =
     AList.update ''AirTemperature'' (F64 0x402E000000000000)
       (AList.update ''RelativeHumidity'' (F64 0x4054000000000000)
         (AList.update ''PressureTrend'' (Str ''steady'') zero_observation))"

definition sample_obs :: observation where
  "sample_obs =
     AList.update ''AirTemperatureIndoor'' (F64 0x4032000000000000)
       (AList.update ''PressureTrendIndoor'' (Str ''rising'') outdoor_obs)"

definition sample_response :: "observation list \<Rightarrow> response" where
  "sample_response os =
     \<lparr>StationId = 42, StationName = ''Home'', PublicName = ''Home'',
      Latitude = 0x4046800000000000, Longitude = 0xC05E800000000000,
      Timezone = ''America/Los_Angeles'', Elevation = 0x4059000000000000,
      Status = \<lparr>Code = 0\<rparr>, Obs = os\<rparr>"

text \<open>
  A registry that only remembers the arguments of every \<open>SetAll\<close> call, in order; a
  decoder for documents that are already responses or decoding errors; a float formatter
  that answers with the format byte alone; a state in which one call has been recorded;
  a network that answers with the sample station and the given observations, and one that
  cannot be reached.
\<close>

definition record_call :: "observation \<Rightarrow> Labels \<Rightarrow> (observation \<times> Labels) list \<Rightarrow> (observation \<times> Labels) list" where
  "record_call ob l calls = calls @ [(ob, l)]"

definition sample_deps :: "(string + response, (observation \<times> Labels) list) deps" where
  "sample_deps =
     \<lparr>token = ''t0ken'', station = ''42'', Decode = (\<lambda>b. b),
      FormatFloat = (\<lambda>x fmt prec bits. [fmt]), FloatIsZero = fz_number, SetAll = record_call\<rparr>"

definition sample_globals :: "(observation \<times> Labels) list globals" where
  "sample_globals = \<lparr>labels = Map.empty, metrics = [(outdoor_obs, Map.empty)]\<rparr>"

definition answer :: "observation list \<Rightarrow> string \<Rightarrow> (string + response) http_reply" where
  "answer os url = Reply (Inr (sample_response os))"

definition unreachable :: "string \<Rightarrow> (string + response) http_reply" where
  "unreachable url = GetFailed ''timeout''"

section \<open>Properties of the overlay resolver\<close>

lemma ends_with_append: "ends_with (b @ suf) suf"
  by (simp add: ends_with_def)

lemma alist_eqI:
  "distinct (map fst xs) \<Longrightarrow> map fst xs = map fst ys \<Longrightarrow> map_of xs = map_of ys \<Longrightarrow> xs = ys"
proof (induction xs arbitrary: ys)
  case Nil
  then show ?case by simp
next
  case (Cons x xs)
  then obtain y ys' where ys: "ys = y # ys'" by (cases ys) auto
  from Cons.prems ys have k: "fst x = fst y" and ks: "map fst xs = map fst ys'" by auto
  from Cons.prems(3) ys have "map_of (x # xs) (fst x) = map_of (y # ys') (fst x)"
    by (rule_tac fun_cong) simp
  with k have v: "snd x = snd y" by (cases x; cases y) auto
  have "map_of xs = map_of ys'"
  proof
    fix a
    show "map_of xs a = map_of ys' a"
    proof (cases "a = fst x")
      case True
      with Cons.prems(1) have "a \<notin> fst ` set xs" by auto
      moreover from this ks have "a \<notin> fst ` set ys'"
        by (metis set_map)
      ultimately show ?thesis by (metis map_of_eq_None_iff)
    next
      case False
      from Cons.prems(3) ys have "map_of (x # xs) a = map_of (y # ys') a"
        by (rule_tac fun_cong) simp
      with False k show ?thesis by (cases x; cases y) auto
    qed
  qed
  with Cons.IH [of ys'] Cons.prems(1) ks have "xs = ys'" by simp
  with k v ys show ?case by (cases x; cases y) auto
qed

lemma mapIndoor_loop_result:
  assumes N: "\<And>b. b @ ''Indoor'' @ ''Indoor'' \<notin> set (map fst obs0)"
    and K: "\<And>n v w. map_of obs0 n = Some v \<Longrightarrow> map_of obs0 (n @ ''Indoor'') = Some w \<Longrightarrow> Kind w = Kind v"
  shows "set ns \<subseteq> set (map fst obs0) \<Longrightarrow> map fst obs = map fst obs0 \<Longrightarrow>
     (\<And>b. map_of obs (b @ ''Indoor'') = map_of obs0 (b @ ''Indoor'')) \<Longrightarrow>
     (\<And>n. map_option Kind (map_of obs n) = map_option Kind (map_of obs0 n)) \<Longrightarrow>
     \<exists>obs'. mapIndoor_loop fz ns obs = Inr obs' \<and> map fst obs' = map fst obs0 \<and>
       (\<forall>n. map_of obs' n =
          (if n \<in> set ns
           then (case map_of obs0 (n @ ''Indoor'') of
                   None \<Rightarrow> map_of obs n
                 | Some w \<Rightarrow> if IsZero fz w then map_of obs n else Some w)
           else map_of obs n))"
proof (induction ns arbitrary: obs)
  case Nil
  then show ?case by simp
next
  case (Cons n rest)
  have rest: "set rest \<subseteq> set (map fst obs0)" using Cons.prems(1) by simp
  have look: "FieldByName (n @ ''Indoor'') obs = map_of obs0 (n @ ''Indoor'')"
    by (simp add: FieldByName_def Cons.prems(3))
  show ?case
  proof (cases "map_of obs0 (n @ ''Indoor'')")
    case None
    from Cons.IH [OF rest Cons.prems(2) Cons.prems(3) Cons.prems(4)]
    obtain obs' where r: "mapIndoor_loop fz rest obs = Inr obs'" "map fst obs' = map fst obs0"
      "\<forall>m. map_of obs' m = (if m \<in> set rest
           then (case map_of obs0 (m @ ''Indoor'') of
                   None \<Rightarrow> map_of obs m
                 | Some w \<Rightarrow> if IsZero fz w then map_of obs m else Some w)
           else map_of obs m)" by blast
    from None look r(1) have "mapIndoor_loop fz (n # rest) obs = Inr obs'" by simp
    moreover from r(3) None have "\<forall>m. map_of obs' m = (if m \<in> set (n # rest)
           then (case map_of obs0 (m @ ''Indoor'') of
                   None \<Rightarrow> map_of obs m
                 | Some w \<Rightarrow> if IsZero fz w then map_of obs m else Some w)
           else map_of obs m)" by auto
    ultimately show ?thesis using r(2) by blast
  next
    case (Some w)
    show ?thesis
    proof (cases "IsZero fz w")
      case True
      from Cons.IH [OF rest Cons.prems(2) Cons.prems(3) Cons.prems(4)]
      obtain obs' where r: "mapIndoor_loop fz rest obs = Inr obs'" "map fst obs' = map fst obs0"
        "\<forall>m. map_of obs' m = (if m \<in> set rest
           then (case map_of obs0 (m @ ''Indoor'') of
                   None \<Rightarrow> map_of obs m
                 | Some w \<Rightarrow> if IsZero fz w then map_of obs m else Some w)
           else map_of obs m)" by blast
      from Some True look r(1) have "mapIndoor_loop fz (n # rest) obs = Inr obs'" by simp
      moreover from r(3) Some True have "\<forall>m. map_of obs' m = (if m \<in> set (n # rest)
           then (case map_of obs0 (m @ ''Indoor'') of
                   None \<Rightarrow> map_of obs m
                 | Some w \<Rightarrow> if IsZero fz w then map_of obs m else Some w)
           else map_of obs m)" by auto
      ultimately show ?thesis using r(2) by blast
    next
      case False
      from Cons.prems(1) have nk: "n \<in> set (map fst obs0)" by simp
      then obtain v0 where v0: "map_of obs0 n = Some v0"
        by (metis map_of_eq_None_iff not_Some_eq set_map)
      from nk Cons.prems(2) obtain old where old: "map_of obs n = Some old"
        by (metis map_of_eq_None_iff not_Some_eq set_map)
      from Cons.prems(4) [of n] v0 old have "Kind old = Kind v0" by simp
      with K [OF v0 Some] have kk: "Kind w = Kind old" by simp
      define obs1 where "obs1 = AList.update n w obs"
      have set1: "FieldSet n w obs = Inr obs1"
        by (simp add: FieldSet_def FieldByName_def old kk obs1_def)
      have keys1: "map fst obs1 = map fst obs0"
        using nk Cons.prems(2) by (simp add: obs1_def update_keys)
      have m1: "map_of obs1 = (map_of obs)(n \<mapsto> w)"
        by (simp add: obs1_def update_conv')
      have nin: "n @ ''Indoor'' \<in> set (map fst obs0)"
        using Some by (metis map_of_eq_None_iff option.distinct(1) set_map)
      have ne: "n \<noteq> b @ ''Indoor''" for b
      proof
        assume "n = b @ ''Indoor''"
        with nin have "b @ ''Indoor'' @ ''Indoor'' \<in> set (map fst obs0)" by simp
        with N [of b] show False by blast
      qed
      have h3: "map_of obs1 (b @ ''Indoor'') = map_of obs0 (b @ ''Indoor'')" for b
        using ne [of b] by (simp add: m1 Cons.prems(3))
      have h4: "map_option Kind (map_of obs1 m) = map_option Kind (map_of obs0 m)" for m
        using Cons.prems(4) [of m] K [OF v0 Some] v0 by (simp add: m1)
      from Cons.IH [OF rest keys1 h3 h4]
      obtain obs' where r: "mapIndoor_loop fz rest obs1 = Inr obs'" "map fst obs' = map fst obs0"
        "\<forall>m. map_of obs' m = (if m \<in> set rest
           then (case map_of obs0 (m @ ''Indoor'') of
                   None \<Rightarrow> map_of obs1 m
                 | Some w \<Rightarrow> if IsZero fz w then map_of obs1 m else Some w)
           else map_of obs1 m)" by blast
      from Some False look set1 r(1) have "mapIndoor_loop fz (n # rest) obs = Inr obs'" by simp
      moreover have "\<forall>m. map_of obs' m = (if m \<in> set (n # rest)
           then (case map_of obs0 (m @ ''Indoor'') of
                   None \<Rightarrow> map_of obs m
                 | Some w \<Rightarrow> if IsZero fz w then map_of obs m else Some w)
           else map_of obs m)"
      proof
        fix m
        show "map_of obs' m = (if m \<in> set (n # rest)
           then (case map_of obs0 (m @ ''Indoor'') of
                   None \<Rightarrow> map_of obs m
                 | Some w \<Rightarrow> if IsZero fz w then map_of obs m else Some w)
           else map_of obs m)"
          using r(3) Some False by (cases "m = n") (simp_all add: m1 split: option.split)
      qed
      ultimately show ?thesis using r(2) by blast
    qed
  qed
qed


lemma observation_fields_distinct: "distinct (map fst observation_fields)"
  by code_simp

lemma observation_fields_suffix:
  "list_all (\<lambda>n. \<not> ends_with n ''IndoorIndoor'') (map fst observation_fields)"
  by code_simp

lemma observation_fields_kinds:
  "list_all (\<lambda>(n, k). case map_of observation_fields (n @ ''Indoor'') of
                          None \<Rightarrow> True | Some k' \<Rightarrow> k' = k) observation_fields"
  by code_simp

lemma is_observation_keys: "is_observation obs \<Longrightarrow> map fst obs = map fst observation_fields"
proof -
  assume "is_observation obs"
  then have "map fst (map (\<lambda>(n, v). (n, Kind v)) obs) = map fst observation_fields"
    by (simp add: is_observation_def)
  moreover have "map fst (map (\<lambda>(n, v). (n, Kind v)) obs) = map fst obs"
    by (induction obs) auto
  ultimately show ?thesis by simp
qed

lemma is_observation_kind:
  "is_observation obs \<Longrightarrow> map_of observation_fields n = map_option Kind (map_of obs n)"
proof -
  assume "is_observation obs"
  then have "map_of observation_fields n = map_of (map (\<lambda>(n, v). (n, Kind v)) obs) n"
    by (simp add: is_observation_def)
  also have "\<dots> = map_option Kind (map_of obs n)"
    by (induction obs) auto
  finally show ?thesis .
qed

lemma is_observation_distinct: "is_observation obs \<Longrightarrow> distinct (map fst obs)"
  by (simp add: is_observation_keys observation_fields_distinct)

lemma is_observation_no_double_suffix:
  assumes "is_observation obs"
  shows "b @ ''Indoor'' @ ''Indoor'' \<notin> set (map fst obs)"
proof
  assume "b @ ''Indoor'' @ ''Indoor'' \<in> set (map fst obs)"
  with assms have "b @ ''IndoorIndoor'' \<in> set (map fst observation_fields)"
    by (simp add: is_observation_keys)
  with observation_fields_suffix have "\<not> ends_with (b @ ''IndoorIndoor'') ''IndoorIndoor''"
    unfolding list_all_iff by blast
  then show False by (simp add: ends_with_append)
qed

lemma is_observation_pair_kind:
  assumes "is_observation obs"
    and v: "map_of obs n = Some v" and w: "map_of obs (n @ ''Indoor'') = Some w"
  shows "Kind w = Kind v"
proof -
  from assms(1) v have kv: "map_of observation_fields n = Some (Kind v)"
    by (simp add: is_observation_kind)
  from assms(1) w have kw: "map_of observation_fields (n @ ''Indoor'') = Some (Kind w)"
    by (simp add: is_observation_kind)
  from kv have "(n, Kind v) \<in> set observation_fields" by (rule map_of_SomeD)
  with observation_fields_kinds
  have "case map_of observation_fields (n @ ''Indoor'') of None \<Rightarrow> True | Some k' \<Rightarrow> k' = Kind v"
    unfolding list_all_iff by blast
  with kw show ?thesis by simp
qed

lemma mapIndoor_fields:
  assumes "is_observation obs"
  shows "\<exists>obs'. mapIndoor fz obs = Inr obs' \<and> map fst obs' = map fst obs \<and>
           (\<forall>n. FieldByName n obs' = resolved_field fz obs n)"
proof -
  have "\<exists>obs'. mapIndoor_loop fz (map fst obs) obs = Inr obs' \<and> map fst obs' = map fst obs \<and>
       (\<forall>n. map_of obs' n =
          (if n \<in> set (map fst obs)
           then (case map_of obs (n @ ''Indoor'') of
                   None \<Rightarrow> map_of obs n
                 | Some w \<Rightarrow> if IsZero fz w then map_of obs n else Some w)
           else map_of obs n))"
  proof (rule mapIndoor_loop_result)
    show "b @ ''Indoor'' @ ''Indoor'' \<notin> set (map fst obs)" for b
      by (rule is_observation_no_double_suffix [OF assms])
    show "Kind w = Kind v"
      if "map_of obs n = Some v" and "map_of obs (n @ ''Indoor'') = Some w" for n v w
      using assms that by (rule is_observation_pair_kind)
  qed simp_all
  then obtain obs' where r: "mapIndoor fz obs = Inr obs'" "map fst obs' = map fst obs"
    and f: "\<And>n. map_of obs' n =
          (if n \<in> set (map fst obs)
           then (case map_of obs (n @ ''Indoor'') of
                   None \<Rightarrow> map_of obs n
                 | Some w \<Rightarrow> if IsZero fz w then map_of obs n else Some w)
           else map_of obs n)"
    unfolding mapIndoor_def by blast
  have "FieldByName n obs' = resolved_field fz obs n" for n
  proof (cases "map_of obs n")
    case None
    then have "n \<notin> set (map fst obs)" by (simp add: map_of_eq_None_iff)
    with None f [of n] show ?thesis by (simp add: FieldByName_def resolved_field_def)
  next
    case (Some v)
    then have "n \<in> set (map fst obs)"
      by (metis map_of_eq_None_iff option.distinct(1) set_map)
    with Some f [of n] show ?thesis
      by (simp add: FieldByName_def resolved_field_def split: option.split)
  qed
  with r show ?thesis by blast
qed

lemma mapIndoor_is_observation:
  assumes "is_observation obs" and "mapIndoor fz obs = Inr obs'"
  shows "is_observation obs'"
proof -
  from mapIndoor_fields [OF assms(1), of fz] assms(2)
  have keys: "map fst obs' = map fst obs"
    and f: "\<And>n. FieldByName n obs' = resolved_field fz obs n" by auto
  have kinds: "map_option Kind (map_of obs' n) = map_option Kind (map_of obs n)" for n
    using f [of n] is_observation_pair_kind [OF assms(1), of n]
    by (auto simp: FieldByName_def resolved_field_def split: option.splits)
  have "map (\<lambda>(n, v). (n, Kind v)) obs' = map (\<lambda>(n, v). (n, Kind v)) obs"
  proof (rule alist_eqI)
    have e: "map fst (map (\<lambda>(n, v). (n, Kind v)) xs) = map fst xs" for xs :: observation
      by (induction xs) auto
    show "distinct (map fst (map (\<lambda>(n, v). (n, Kind v)) obs'))"
      using is_observation_distinct [OF assms(1)] keys by (simp only: e)
    show "map fst (map (\<lambda>(n, v). (n, Kind v)) obs') = map fst (map (\<lambda>(n, v). (n, Kind v)) obs)"
      using keys by (simp only: e)
    have m: "map_of (map (\<lambda>(n, v). (n, Kind v)) xs) n = map_option Kind (map_of xs n)"
      for xs :: observation and n
      by (induction xs) auto
    show "map_of (map (\<lambda>(n, v). (n, Kind v)) obs') = map_of (map (\<lambda>(n, v). (n, Kind v)) obs)"
      by (rule ext) (simp only: m kinds)
  qed
  with assms(1) show ?thesis by (simp add: is_observation_def)
qed

subsection \<open>The sample observations are observations\<close>

lemma sample_obs_typed: "is_observation sample_obs"
  by code_simp

lemma outdoor_obs_typed: "is_observation outdoor_obs"
  by code_simp

subsection \<open>Text fields\<close>

text \<open>
  Claim C1 says that every text-valued field comes out of \<open>mapIndoor\<close> as it went in,
  whatever its indoor counterpart holds. The loop does not look at the type of a field:
  \<open>PressureTrendIndoor\<close> is found by name for \<open>PressureTrend\<close>, and a non-empty string
  is not zero. In the sample observation the trend \<open>steady\<close> is replaced by \<open>rising\<close>.
\<close>

theorem mapIndoor_text_counterexample:
  "is_observation sample_obs \<and>
   FieldByName ''PressureTrend'' sample_obs = Some (Str ''steady'') \<and>
   map_sum id (FieldByName ''PressureTrend'') (mapIndoor fz_number sample_obs)
     = Inr (Some (Str ''rising''))"
  by code_simp

text \<open>
  Claim C1, as the code has it: a text-valued field comes out unmodified when the struct
  has no field of its name followed by \<open>Indoor\<close>, or when that field is the empty string
  (so \<open>PressureTrendIndoor\<close> itself is never modified); when that field is a non-empty
  string, the text field takes its value.
\<close>

theorem mapIndoor_text_fields:
  assumes "is_observation obs" and "FieldByName n obs = Some (Str s)"
  shows "\<exists>obs'. mapIndoor fz obs = Inr obs' \<and>
     (FieldByName (n @ ''Indoor'') obs = None \<or> FieldByName (n @ ''Indoor'') obs = Some (Str [])
        \<longrightarrow> FieldByName n obs' = Some (Str s)) \<and>
     (\<forall>t. FieldByName (n @ ''Indoor'') obs = Some (Str t) \<and> t \<noteq> []
        \<longrightarrow> FieldByName n obs' = Some (Str t))"
proof -
  from mapIndoor_fields [OF assms(1), of fz]
  obtain obs' where r: "mapIndoor fz obs = Inr obs'"
    and f: "\<And>m. FieldByName m obs' = resolved_field fz obs m" by blast
  from f [of n] assms(2) have
    "FieldByName (n @ ''Indoor'') obs = None \<or> FieldByName (n @ ''Indoor'') obs = Some (Str [])
       \<longrightarrow> FieldByName n obs' = Some (Str s)"
    by (auto simp: resolved_field_def)
  moreover from f [of n] assms(2) have
    "\<forall>t. FieldByName (n @ ''Indoor'') obs = Some (Str t) \<and> t \<noteq> []
       \<longrightarrow> FieldByName n obs' = Some (Str t)"
    by (auto simp: resolved_field_def)
  ultimately show ?thesis using r by blast
qed

theorem mapIndoor_text_fields_witness:
  "is_observation sample_obs \<and>
   FieldByName ''PressureTrendIndoor'' sample_obs = Some (Str ''rising'') \<and>
   FieldByName (''PressureTrendIndoor'' @ ''Indoor'') sample_obs = None \<and>
   FieldByName ''PressureTrend'' sample_obs = Some (Str ''steady'') \<and>
   FieldByName (''PressureTrend'' @ ''Indoor'') sample_obs = Some (Str ''rising'') \<and>
   ''rising'' \<noteq> [] \<and>
   (\<exists>obs'. mapIndoor fz_number sample_obs = Inr obs' \<and>
      FieldByName ''PressureTrendIndoor'' obs' = Some (Str ''rising'') \<and>
      FieldByName ''PressureTrend'' obs' = Some (Str ''rising''))"
proof -
  note a = sample_obs_typed
  have b: "FieldByName ''PressureTrendIndoor'' sample_obs = Some (Str ''rising'')" by code_simp
  have c: "FieldByName (''PressureTrendIndoor'' @ ''Indoor'') sample_obs = None" by code_simp
  have d: "FieldByName ''PressureTrend'' sample_obs = Some (Str ''steady'')" by code_simp
  have e: "FieldByName (''PressureTrend'' @ ''Indoor'') sample_obs = Some (Str ''rising'')"
    by code_simp
  have f: "''rising'' \<noteq> []" by simp
  from mapIndoor_text_fields [OF a b, of fz_number] c
  obtain obs' where r: "mapIndoor fz_number sample_obs = Inr obs'"
    and i: "FieldByName ''PressureTrendIndoor'' obs' = Some (Str ''rising'')" by blast
  from mapIndoor_text_fields [OF a d, of fz_number] e f r
  have "FieldByName ''PressureTrend'' obs' = Some (Str ''rising'')" by auto
  with a b c d e f r i show ?thesis by blast
qed

subsection \<open>Numeric fields with an indoor counterpart\<close>

text \<open>
  Claim C2: for every observation and every numeric field that has an indoor counterpart,
  if the counterpart is not zero then the resolved field equals the counterpart's value.
\<close>

theorem mapIndoor_overrides:
  assumes "is_observation obs"
    and "FieldByName n obs = Some (F64 x)"
    and "FieldByName (n @ ''Indoor'') obs = Some (F64 y)"
    and "\<not> fz y"
  shows "\<exists>obs'. mapIndoor fz obs = Inr obs' \<and> FieldByName n obs' = Some (F64 y)"
proof -
  from mapIndoor_fields [OF assms(1), of fz]
  obtain obs' where r: "mapIndoor fz obs = Inr obs'"
    and f: "\<And>m. FieldByName m obs' = resolved_field fz obs m" by blast
  from f [of n] assms(2-4) have "FieldByName n obs' = Some (F64 y)"
    by (simp add: resolved_field_def)
  with r show ?thesis by blast
qed

theorem mapIndoor_overrides_witness:
  "is_observation sample_obs \<and>
   FieldByName ''AirTemperature'' sample_obs = Some (F64 0x402E000000000000) \<and>
   FieldByName (''AirTemperature'' @ ''Indoor'') sample_obs = Some (F64 0x4032000000000000) \<and>
   \<not> fz_number 0x4032000000000000 \<and>
   (\<exists>obs'. mapIndoor fz_number sample_obs = Inr obs' \<and>
      FieldByName ''AirTemperature'' obs' = Some (F64 0x4032000000000000))"
proof -
  note a = sample_obs_typed
  have b: "FieldByName ''AirTemperature'' sample_obs = Some (F64 0x402E000000000000)" by code_simp
  have c: "FieldByName (''AirTemperature'' @ ''Indoor'') sample_obs = Some (F64 0x4032000000000000)"
    by code_simp
  have d: "\<not> fz_number 0x4032000000000000" by (simp add: fz_number_def)
  from mapIndoor_overrides [where fz = fz_number, OF a b c d] a b c d show ?thesis by blast
qed

lemma indoor_fields_zeroD:
  assumes "indoor_fields_zero fz obs" and "FieldByName (b @ ''Indoor'') obs = Some w"
  shows "IsZero fz w"
proof -
  from assms(2) have "(b @ ''Indoor'', w) \<in> set obs"
    by (simp add: FieldByName_def map_of_SomeD)
  with assms(1) have "\<not> ends_with (b @ ''Indoor'') ''Indoor'' \<or> IsZero fz w"
    unfolding indoor_fields_zero_def list_all_iff by blast
  then show ?thesis by (simp add: ends_with_append)
qed

text \<open>
  Claim C3: for every observation, a numeric field whose indoor counterpart is zero keeps
  its value; and when every field with the suffix \<open>Indoor\<close> holds the zero value of its
  type, the resolved observation is the observation itself.
\<close>

theorem mapIndoor_keeps_on_zero_indoor:
  assumes "is_observation obs"
  shows "\<exists>obs'. mapIndoor fz obs = Inr obs' \<and>
     (\<forall>n x y. FieldByName n obs = Some (F64 x) \<and> FieldByName (n @ ''Indoor'') obs = Some (F64 y) \<and> fz y
        \<longrightarrow> FieldByName n obs' = Some (F64 x)) \<and>
     (indoor_fields_zero fz obs \<longrightarrow> obs' = obs)"
proof -
  from mapIndoor_fields [OF assms, of fz]
  obtain obs' where r: "mapIndoor fz obs = Inr obs'" and k: "map fst obs' = map fst obs"
    and f: "\<And>m. FieldByName m obs' = resolved_field fz obs m" by blast
  have one: "\<forall>n x y. FieldByName n obs = Some (F64 x) \<and> FieldByName (n @ ''Indoor'') obs = Some (F64 y) \<and> fz y
        \<longrightarrow> FieldByName n obs' = Some (F64 x)"
    by (simp add: f resolved_field_def)
  have all: "obs' = obs" if z: "indoor_fields_zero fz obs"
  proof (rule alist_eqI)
    show "distinct (map fst obs')" using k assms by (simp add: is_observation_distinct)
    show "map fst obs' = map fst obs" by (rule k)
    show "map_of obs' = map_of obs"
    proof
      fix m
      have "resolved_field fz obs m = FieldByName m obs"
        using indoor_fields_zeroD [OF z, of m]
        by (auto simp: resolved_field_def split: option.splits)
      with f [of m] show "map_of obs' m = map_of obs m" by (simp add: FieldByName_def)
    qed
  qed
  from r one all show ?thesis by blast
qed

theorem mapIndoor_keeps_on_zero_indoor_witness:
  "is_observation sample_obs \<and>
   FieldByName ''RelativeHumidity'' sample_obs = Some (F64 0x4054000000000000) \<and>
   FieldByName (''RelativeHumidity'' @ ''Indoor'') sample_obs = Some (F64 0) \<and> fz_number 0 \<and>
   (\<exists>obs'. mapIndoor fz_number sample_obs = Inr obs' \<and>
      FieldByName ''RelativeHumidity'' obs' = Some (F64 0x4054000000000000)) \<and>
   is_observation outdoor_obs \<and> indoor_fields_zero fz_number outdoor_obs \<and>
   mapIndoor fz_number outdoor_obs = Inr outdoor_obs"
proof -
  have b: "FieldByName ''RelativeHumidity'' sample_obs = Some (F64 0x4054000000000000)"
    by code_simp
  have c: "FieldByName (''RelativeHumidity'' @ ''Indoor'') sample_obs = Some (F64 0)" by code_simp
  have d: "fz_number 0" by (simp add: fz_number_def)
  from mapIndoor_keeps_on_zero_indoor [OF sample_obs_typed, of fz_number] b c d
  have one: "\<exists>obs'. mapIndoor fz_number sample_obs = Inr obs' \<and>
      FieldByName ''RelativeHumidity'' obs' = Some (F64 0x4054000000000000)" by blast
  have z: "indoor_fields_zero fz_number outdoor_obs" by code_simp
  from mapIndoor_keeps_on_zero_indoor [OF outdoor_obs_typed, of fz_number] z
  have "mapIndoor fz_number outdoor_obs = Inr outdoor_obs" by auto
  with sample_obs_typed outdoor_obs_typed b c d one z show ?thesis by blast
qed

subsection \<open>Frame and idempotence\<close>

text \<open>
  Claim C4: \<open>mapIndoor\<close> modifies no field whose name ends in \<open>Indoor\<close> and no field
  without an indoor counterpart; the struct keeps its fields and their order.
\<close>

theorem mapIndoor_frame:
  assumes "is_observation obs"
  shows "\<exists>obs'. mapIndoor fz obs = Inr obs' \<and> map fst obs' = map fst obs \<and>
     (\<forall>n. ends_with n ''Indoor'' \<or> FieldByName (n @ ''Indoor'') obs = None
        \<longrightarrow> FieldByName n obs' = FieldByName n obs)"
proof -
  from mapIndoor_fields [OF assms, of fz]
  obtain obs' where r: "mapIndoor fz obs = Inr obs'" and k: "map fst obs' = map fst obs"
    and f: "\<And>m. FieldByName m obs' = resolved_field fz obs m" by blast
  have "FieldByName n obs' = FieldByName n obs"
    if "ends_with n ''Indoor'' \<or> FieldByName (n @ ''Indoor'') obs = None" for n
  proof -
    have "FieldByName (n @ ''Indoor'') obs = None"
    proof (cases "FieldByName (n @ ''Indoor'') obs = None")
      case True
      then show ?thesis .
    next
      case False
      with that have e: "ends_with n ''Indoor''" by blast
      define b where "b = take (length n - length ''Indoor'') n"
      from e have "n = b @ ''Indoor''"
        unfolding ends_with_def b_def by (metis append_take_drop_id)
      with is_observation_no_double_suffix [OF assms, of b]
      have "n @ ''Indoor'' \<notin> set (map fst obs)" by simp
      then show ?thesis by (simp add: FieldByName_def map_of_eq_None_iff)
    qed
    with f [of n] show ?thesis by (simp add: resolved_field_def split: option.splits)
  qed
  with r k show ?thesis by blast
qed

theorem mapIndoor_frame_witness:
  "is_observation sample_obs \<and>
   ends_with ''AirTemperatureIndoor'' ''Indoor'' \<and>
   FieldByName (''WindGust'' @ ''Indoor'') sample_obs = None \<and>
   (\<exists>obs'. mapIndoor fz_number sample_obs = Inr obs' \<and>
      FieldByName ''AirTemperatureIndoor'' obs' = FieldByName ''AirTemperatureIndoor'' sample_obs \<and>
      FieldByName ''WindGust'' obs' = FieldByName ''WindGust'' sample_obs)"
proof -
  note a = sample_obs_typed
  have b: "ends_with ''AirTemperatureIndoor'' ''Indoor''" by code_simp
  have c: "FieldByName (''WindGust'' @ ''Indoor'') sample_obs = None" by code_simp
  from mapIndoor_frame [OF a, of fz_number] a b c show ?thesis by blast
qed

text \<open>
  Claim C5: \<open>mapIndoor\<close> is idempotent: run on its own result it returns that result.
\<close>

theorem mapIndoor_idempotent:
  assumes "is_observation obs"
  shows "\<exists>obs'. mapIndoor fz obs = Inr obs' \<and> mapIndoor fz obs' = Inr obs'"
proof -
  from mapIndoor_fields [OF assms, of fz]
  obtain obs' where r: "mapIndoor fz obs = Inr obs'" and k: "map fst obs' = map fst obs"
    and f: "\<And>m. FieldByName m obs' = resolved_field fz obs m" by blast
  have t: "is_observation obs'" using assms r by (rule mapIndoor_is_observation)
  from mapIndoor_fields [OF t, of fz]
  obtain obs'' where r2: "mapIndoor fz obs' = Inr obs''" and k2: "map fst obs'' = map fst obs'"
    and f2: "\<And>m. FieldByName m obs'' = resolved_field fz obs' m" by blast
  have ind: "FieldByName (m @ ''Indoor'') obs' = FieldByName (m @ ''Indoor'') obs" for m
  proof -
    from is_observation_no_double_suffix [OF assms, of m]
    have "FieldByName ((m @ ''Indoor'') @ ''Indoor'') obs = None"
      by (simp add: FieldByName_def map_of_eq_None_iff)
    then show ?thesis
      unfolding f [of "m @ ''Indoor''"] resolved_field_def by (simp split: option.splits)
  qed
  have "obs'' = obs'"
  proof (rule alist_eqI)
    show "distinct (map fst obs'')" using k2 t by (simp add: is_observation_distinct)
    show "map fst obs'' = map fst obs'" by (rule k2)
    show "map_of obs'' = map_of obs'"
    proof
      fix m
      have "resolved_field fz obs' m = FieldByName m obs'"
        unfolding resolved_field_def [of fz obs'] ind
        unfolding f [of m] resolved_field_def [of fz obs]
        by (simp split: option.splits)
      with f2 [of m] show "map_of obs'' m = map_of obs' m" by (simp add: FieldByName_def)
    qed
  qed
  with r r2 show ?thesis by simp
qed

theorem mapIndoor_idempotent_witness:
  "is_observation sample_obs \<and>
   (\<exists>obs'. mapIndoor fz_number sample_obs = Inr obs' \<and> mapIndoor fz_number obs' = Inr obs')"
proof -
  note a = sample_obs_typed
  from mapIndoor_idempotent [OF a, of fz_number] a show ?thesis by blast
qed

section \<open>Properties of the refresh loop\<close>

lemma getDatas_append:
  "getDatas E (earlier @ later) g =
     (case getDatas E earlier g of
        Running g' \<Rightarrow> getDatas E later g'
      | Exited err g' \<Rightarrow> Exited err g'
      | Panicked p g' \<Rightarrow> Panicked p g')"
  by (induction earlier arbitrary: g) (auto split: outcome.splits)

lemma fetch_answer:
  "getTempestData (answer os) (Decode sample_deps) (token sample_deps) (station sample_deps)
     = Inr (sample_response os)"
  by (simp add: getTempestData_def answer_def sample_deps_def)

lemma fetch_unreachable:
  "getTempestData unreachable (Decode sample_deps) (token sample_deps) (station sample_deps)
     = Inl ''error getting data from tempest station: timeout''"
  by (simp add: getTempestData_def unreachable_def)

text \<open>
  Claim C6: when the fetched response holds no observation, the pass neither resolves an
  overlay nor calls \<open>SetAll\<close>: the registry is the one the pass started with, whatever
  \<open>SetAll\<close> does, and the loop goes on. Only the package variable \<open>labels\<close> is
  replaced, which is not part of the registry.
\<close>

theorem getDatas_body_no_observations:
  assumes "getTempestData Get (Decode E) (token E) (station E) = Inr r" and "Obs r = []"
  shows "\<exists>g'. getDatas_body E Get g = Next g' \<and> metrics g' = metrics g \<and>
           labels g' = parseLabels (FormatFloat E) r \<and>
           getDatas E (Get # later) g = getDatas E later g'"
  using assms by (simp add: getDatas_body_def)

theorem getDatas_body_no_observations_witness:
  "getTempestData (answer []) (Decode sample_deps) (token sample_deps) (station sample_deps)
     = Inr (sample_response []) \<and>
   Obs (sample_response []) = [] \<and>
   (\<exists>g'. getDatas_body sample_deps (answer []) sample_globals = Next g' \<and>
      metrics g' = [(outdoor_obs, Map.empty)])"
proof -
  have a: "getTempestData (answer []) (Decode sample_deps) (token sample_deps) (station sample_deps)
     = Inr (sample_response [])"
    by (simp add: getTempestData_def answer_def sample_deps_def)
  have b: "Obs (sample_response []) = []" by (simp add: sample_response_def)
  from getDatas_body_no_observations [OF a b, of sample_globals "[]"] a b show ?thesis
    by (auto simp: sample_globals_def)
qed

text \<open>
  Claim C7: two fetched responses that agree on the station identity fields and on the
  first observation lead to the same outcome of the pass, in particular to the same
  \<open>SetAll\<close> call, however the rest of their observation arrays differ.
\<close>

theorem getDatas_body_first_observation_only:
  assumes "getTempestData Get1 (Decode E) (token E) (station E) = Inr r1"
    and "getTempestData Get2 (Decode E) (token E) (station E) = Inr r2"
    and "StationId r1 = StationId r2" and "StationName r1 = StationName r2"
    and "PublicName r1 = PublicName r2" and "Latitude r1 = Latitude r2"
    and "Longitude r1 = Longitude r2" and "Timezone r1 = Timezone r2"
    and "Elevation r1 = Elevation r2"
    and "Obs r1 = ob # rest1" and "Obs r2 = ob # rest2"
  shows "getDatas_body E Get1 g = getDatas_body E Get2 g"
  using assms by (simp add: getDatas_body_def parseLabels_def)

theorem getDatas_body_first_observation_only_witness:
  "getTempestData (answer [sample_obs]) (Decode sample_deps) (token sample_deps) (station sample_deps)
     = Inr (sample_response [sample_obs]) \<and>
   getTempestData (answer [sample_obs, outdoor_obs]) (Decode sample_deps) (token sample_deps)
     (station sample_deps) = Inr (sample_response [sample_obs, outdoor_obs]) \<and>
   Obs (sample_response [sample_obs]) = sample_obs # [] \<and>
   Obs (sample_response [sample_obs, outdoor_obs]) = sample_obs # [outdoor_obs] \<and>
   getDatas_body sample_deps (answer [sample_obs]) sample_globals =
   getDatas_body sample_deps (answer [sample_obs, outdoor_obs]) sample_globals"
proof -
  have o1: "Obs (sample_response [sample_obs]) = sample_obs # []"
    and o2: "Obs (sample_response [sample_obs, outdoor_obs]) = sample_obs # [outdoor_obs]"
    by (simp_all add: sample_response_def)
  have "getDatas_body sample_deps (answer [sample_obs]) sample_globals =
        getDatas_body sample_deps (answer [sample_obs, outdoor_obs]) sample_globals"
    by (rule getDatas_body_first_observation_only
          [OF fetch_answer fetch_answer _ _ _ _ _ _ _ o1 o2])
       (simp_all add: sample_response_def)
  with fetch_answer o1 o2 show ?thesis by blast
qed

text \<open>
  Claim C8: in whatever pass the fetch returns an error, the process exits with that error,
  in the state the pass started with and without looking at any later answer of the
  network; when the fetch succeeds the pass ends normally and the loop goes on with the
  next answer.
\<close>

theorem getDatas_fetch_error_fatal:
  assumes "getDatas E earlier g = Running g'"
  shows "(\<forall>err. getTempestData Get (Decode E) (token E) (station E) = Inl err
            \<longrightarrow> getDatas E (earlier @ Get # later) g = Exited err g') \<and>
         (\<forall>r. getTempestData Get (Decode E) (token E) (station E) = Inr r \<and>
              list_all is_observation (Obs r)
            \<longrightarrow> (\<exists>g''. getDatas_body E Get g' = Next g'' \<and>
                   getDatas E (earlier @ Get # later) g = getDatas E later g''))"
proof (intro conjI allI impI)
  fix err
  assume "getTempestData Get (Decode E) (token E) (station E) = Inl err"
  then have "getDatas_body E Get g' = Fatal err" by (simp add: getDatas_body_def)
  with assms show "getDatas E (earlier @ Get # later) g = Exited err g'"
    by (simp add: getDatas_append)
next
  fix r
  assume a: "getTempestData Get (Decode E) (token E) (station E) = Inr r \<and>
             list_all is_observation (Obs r)"
  have "\<exists>g''. getDatas_body E Get g' = Next g''"
  proof (cases "Obs r")
    case Nil
    with a show ?thesis by (simp add: getDatas_body_def)
  next
    case (Cons ob rest)
    with a have "is_observation ob" by simp
    from mapIndoor_fields [OF this, of "FloatIsZero E"]
    obtain ob' where "mapIndoor (FloatIsZero E) ob = Inr ob'" by blast
    with a Cons show ?thesis by (simp add: getDatas_body_def)
  qed
  then obtain g'' where n: "getDatas_body E Get g' = Next g''" by blast
  with assms have "getDatas E (earlier @ Get # later) g = getDatas E later g''"
    by (simp add: getDatas_append)
  with n show "\<exists>g''. getDatas_body E Get g' = Next g'' \<and>
                 getDatas E (earlier @ Get # later) g = getDatas E later g''" by blast
qed

theorem getDatas_fetch_error_fatal_witness:
  "getDatas sample_deps [] sample_globals = Running sample_globals \<and>
   list_all is_observation (Obs (sample_response [sample_obs])) \<and>
   (\<exists>g'. getDatas sample_deps [answer [sample_obs]] sample_globals = Running g' \<and>
      getDatas sample_deps ([answer [sample_obs]] @ unreachable # [answer [sample_obs]]) sample_globals
        = Exited ''error getting data from tempest station: timeout'' g')"
proof -
  have s: "getDatas sample_deps [] sample_globals = Running sample_globals" by simp
  have t: "list_all is_observation (Obs (sample_response [sample_obs]))"
    by (simp add: sample_response_def sample_obs_typed)
  from getDatas_fetch_error_fatal [OF s, of "answer [sample_obs]" "[]"] fetch_answer t
  obtain g' where r: "getDatas sample_deps [answer [sample_obs]] sample_globals = Running g'"
    by auto
  from getDatas_fetch_error_fatal [OF r, of unreachable "[answer [sample_obs]]"] fetch_unreachable
  have "getDatas sample_deps ([answer [sample_obs]] @ unreachable # [answer [sample_obs]]) sample_globals
        = Exited ''error getting data from tempest station: timeout'' g'" by blast
  with s t r show ?thesis by blast
qed

section \<open>Properties of the labels\<close>

lemma digit_val_digit_char: "d < 10 \<Longrightarrow> digit_val (digit_char d) = d"
proof -
  assume "d < 10"
  then have "d \<in> {0, 1, 2, 3, 4, 5, 6, 7, 8, 9}" by auto
  then show ?thesis by (auto simp: digit_val_def digit_char_def)
qed

lemma decimal_nat_snoc: "decimal_nat (s @ [c]) = 10 * decimal_nat s + digit_val c"
  by (simp add: decimal_nat_def)

lemma decimal_nat_digits10: "decimal_nat (digits10 n) = n"
proof (induction n rule: digits10.induct)
  case (1 n)
  show ?case
  proof (cases "n < 10")
    case True
    then show ?thesis
      by (subst digits10.simps) (simp add: decimal_nat_def digit_val_digit_char)
  next
    case False
    with 1 have "decimal_nat (digits10 (n div 10)) = n div 10" by simp
    with False show ?thesis
      by (subst digits10.simps) (simp add: decimal_nat_snoc digit_val_digit_char)
  qed
qed

lemma digit_char_not_minus: "d < 10 \<Longrightarrow> digit_char d \<noteq> CHR ''-''"
proof -
  assume "d < 10"
  then have "d \<in> {0, 1, 2, 3, 4, 5, 6, 7, 8, 9}" by auto
  then show ?thesis by (auto simp: digit_char_def)
qed

lemma digits10_head: "\<exists>c cs. digits10 n = c # cs \<and> c \<noteq> CHR ''-''"
proof (induction n rule: digits10.induct)
  case (1 n)
  show ?case
  proof (cases "n < 10")
    case True
    then show ?thesis by (subst digits10.simps) (simp add: digit_char_not_minus)
  next
    case False
    with 1 obtain c cs where "digits10 (n div 10) = c # cs" "c \<noteq> CHR ''-''" by blast
    with False show ?thesis by (subst digits10.simps) simp
  qed
qed

lemma decimal_int_Itoa: "decimal_int (Itoa i) = i"
proof (cases "i < 0")
  case True
  then show ?thesis by (simp add: Itoa_def decimal_nat_digits10)
next
  case False
  obtain c cs where h: "digits10 (nat i) = c # cs" "c \<noteq> CHR ''-''"
    using digits10_head by blast
  have "decimal_nat (c # cs) = nat i" using decimal_nat_digits10 [of "nat i"] h by simp
  with False h show ?thesis by (simp add: Itoa_def)
qed

lemma Itoa_42: "Itoa 42 = ''42''"
  by code_simp

text \<open>
  Claim C9: for every response the label map of \<open>parseLabels\<close> has exactly the seven keys
  \<open>station_id\<close>, \<open>station_name\<close>, \<open>public_name\<close>, \<open>latitude\<close>, \<open>longitude\<close>,
  \<open>timezone\<close> and \<open>elevation\<close>, and \<open>station_id\<close> is the decimal numeral of the station
  ID: read back it gives the ID, and 42 gives \<open>42\<close>.
\<close>

theorem parseLabels_keys:
  "dom (parseLabels ff r) =
     {''station_id'', ''station_name'', ''public_name'', ''latitude'', ''longitude'',
      ''timezone'', ''elevation''} \<and>
   parseLabels ff r ''station_id'' = Some (Itoa (StationId r)) \<and>
   decimal_int (Itoa (StationId r)) = StationId r \<and>
   parseLabels ff (r\<lparr>StationId := 42\<rparr>) ''station_id'' = Some ''42''"
proof -
  have "dom (parseLabels ff r) =
     {''station_id'', ''station_name'', ''public_name'', ''latitude'', ''longitude'',
      ''timezone'', ''elevation''}"
    by (auto simp: parseLabels_def)
  moreover have "parseLabels ff r ''station_id'' = Some (Itoa (StationId r))" for r
    by (simp add: parseLabels_def)
  ultimately show ?thesis by (simp add: decimal_int_Itoa Itoa_42)
qed


end
